theory Spec2Isabelle
  imports Main
begin

section \<open>Data model\<close>

text \<open>
  An \<open>xml.etree.ElementTree.Element\<close>: its tag, its attribute dictionary (in document
  order), its text (\<open>None\<close> when the parser found none) and its child elements in document
  order.
\<close>

datatype element =
  Element (tag: string) (attrib: "(string \<times> string) list") (etext: "string option")
    (children: "element list")

text \<open>
  A Python \<open>dict\<close> with string keys, as an association list in insertion order.
  \<open>d[k] = v\<close> replaces the value in place when the key is present and appends the pair
  otherwise; \<open>d.update(other)\<close> stores the items of \<open>other\<close> one after the other.
\<close>

type_synonym 'v dict = "(string \<times> 'v) list"

fun dict_set :: "string \<Rightarrow> 'v \<Rightarrow> 'v dict \<Rightarrow> 'v dict" where
  "dict_set k v [] = [(k, v)]"
| "dict_set k v (p # d) = (if fst p = k then (k, v) # d else p # dict_set k v d)"

definition dict_update :: "'v dict \<Rightarrow> 'v dict \<Rightarrow> 'v dict" where
  "dict_update d other = fold (\<lambda>(k, v) acc. dict_set k v acc) other d"

text \<open>
  Equality of two dictionaries does not look at the insertion order: the same keys with
  the same values.
\<close>

definition dict_eq :: "'v dict \<Rightarrow> 'v dict \<Rightarrow> bool" where
  "dict_eq a b = (set a = set b)"

text \<open>
  \<open>str.strip()\<close> removes the leading and trailing whitespace; on ASCII text the
  whitespace characters are the space, tab, line feed, vertical tab, form feed, carriage
  return and the four separators 0x1C to 0x1F.
\<close>

definition is_space :: "char \<Rightarrow> bool" where
  "is_space c = (c \<in> set [CHR '' '', CHR 0x09, CHR 0x0A, CHR 0x0B, CHR 0x0C, CHR 0x0D,
     CHR 0x1C, CHR 0x1D, CHR 0x1E, CHR 0x1F])"

definition strip :: "string \<Rightarrow> string" where
  "strip s = rev (dropWhile is_space (rev (dropWhile is_space s)))"

section \<open>Grouping the children of a node by tag\<close>

text \<open>
  \<open>groups.setdefault(child.tag, []).append(child)\<close> for the children in document
  order: a tag seen for the first time opens a group at the end, a tag seen before extends
  its group.
\<close>

definition group_step :: "element \<Rightarrow> element list dict \<Rightarrow> element list dict" where
  "group_step c g =
     (case map_of g (tag c) of
        None \<Rightarrow> g @ [(tag c, [c])]
      | Some ns \<Rightarrow> dict_set (tag c) (ns @ [c]) g)"

definition group_children :: "element list \<Rightarrow> element list dict" where
  "group_children cs = fold group_step cs []"

lemma dict_set_keys: "fst ` set (dict_set k v d) = insert k (fst ` set d)"
  by (induction d) auto

lemma dict_set_values:
  "(k', v') \<in> set (dict_set k v d) \<Longrightarrow> (k', v') \<in> set d \<or> (k' = k \<and> v' = v)"
  by (induction d) (auto split: if_splits)

lemma group_step_members:
  assumes "\<forall>(t, ns) \<in> set g. ns \<noteq> [] \<and> set ns \<subseteq> S" and "c \<in> S"
  shows "\<forall>(t, ns) \<in> set (group_step c g). ns \<noteq> [] \<and> set ns \<subseteq> S"
proof (cases "map_of g (tag c)")
  case None
  with assms show ?thesis by (auto simp: group_step_def)
next
  case (Some ns)
  then have "(tag c, ns) \<in> set g" by (rule map_of_SomeD)
  with assms have "set ns \<subseteq> S" by auto
  with assms Some show ?thesis
    by (auto simp: group_step_def dest!: dict_set_values)
qed

lemma fold_group_step_members:
  "\<forall>(t, ns) \<in> set g. ns \<noteq> [] \<and> set ns \<subseteq> S \<Longrightarrow> set cs \<subseteq> S \<Longrightarrow>
   \<forall>(t, ns) \<in> set (fold group_step cs g). ns \<noteq> [] \<and> set ns \<subseteq> S"
proof (induction cs arbitrary: g)
  case Nil
  then show ?case by simp
next
  case (Cons c cs)
  have "\<forall>(t, ns) \<in> set (group_step c g). ns \<noteq> [] \<and> set ns \<subseteq> S"
    using Cons.prems by (intro group_step_members) auto
  then show ?case using Cons by simp
qed

lemma group_children_members:
  "(t, ns) \<in> set (group_children cs) \<Longrightarrow> ns \<noteq> [] \<and> set ns \<subseteq> set cs"
  using fold_group_step_members [of "[]" "set cs" cs] by (auto simp: group_children_def)

lemma size_child: "c \<in> set (children el) \<Longrightarrow> size c < size el"
  by (cases el) (auto dest: size_list_estimation' [where f = size and y = "size c"])

section \<open>Policy A: full cartesian expansion\<close>

text \<open>
  \<open>expand_node\<close> of \<open>app.py\<close>. The rows are dictionaries from column names
  to strings.
\<close>

definition column_prefix :: "string \<Rightarrow> string \<Rightarrow> string" where
  "column_prefix path t = (if path \<noteq> [] then path @ ''_'' @ t else t)"

definition add_attributes :: "string \<Rightarrow> (string \<times> string) list \<Rightarrow> string dict \<Rightarrow> string dict" where
  "add_attributes prefix attrs base =
     fold (\<lambda>(k, v) acc. dict_set (prefix @ ''_'' @ k) v acc) attrs base"

definition stripped_text :: "element \<Rightarrow> string" where
  "stripped_text el = strip (case etext el of None \<Rightarrow> [] | Some t \<Rightarrow> t)"

definition merge_combo :: "string dict \<Rightarrow> string dict list \<Rightarrow> string dict" where
  "merge_combo base combo = fold (\<lambda>row merged. dict_update merged row) combo base"

function expand_node :: "element \<Rightarrow> string dict \<Rightarrow> string \<Rightarrow> string dict list" where
  "expand_node el context path =
     (let prefix = column_prefix path (tag el);
          base = add_attributes prefix (attrib el) context;
          txt = stripped_text el
      in if txt \<noteq> [] \<and> length (children el) = 0 then [dict_set prefix txt base]
         else if children el = [] then [base]
         else
           let groups = group_children (children el);
               expanded_groups =
                 map (\<lambda>(t, nodes). concat (map (\<lambda>n. expand_node n base prefix) nodes)) groups
           in map (merge_combo base) (product_lists expanded_groups))"
  by pat_completeness auto
termination
proof (relation "measure (\<lambda>(el, context, path). size el)", goal_cases)
  case 1
  then show ?case by simp
next
  case (2 el ctx path pfx base tx groups p t nodes n)
  then have "n \<in> set (children el)"
    using group_children_members [of t nodes "children el"] by auto
  then show ?case by (simp add: size_child)
qed

declare expand_node.simps [simp del]

text \<open>
  \<open>expand_node\<close> of \<open>version2.py\<close>: the same expansion without the path, with the
  columns \<open>tag_@attribute\<close> and \<open>tag\<close>.
\<close>

definition add_attributes_v2 :: "string \<Rightarrow> (string \<times> string) list \<Rightarrow> string dict \<Rightarrow> string dict" where
  "add_attributes_v2 t attrs base =
     fold (\<lambda>(k, v) acc. dict_set (t @ ''_@'' @ k) v acc) attrs base"

function expand_node_v2 :: "element \<Rightarrow> string dict \<Rightarrow> string dict list" where
  "expand_node_v2 el context =
     (let base = add_attributes_v2 (tag el) (attrib el) context;
          txt = stripped_text el
      in if txt \<noteq> [] \<and> length (children el) = 0 then [dict_set (tag el) txt base]
         else if children el = [] then [base]
         else
           let groups = group_children (children el);
               expanded_groups =
                 map (\<lambda>(t, nodes). concat (map (\<lambda>n. expand_node_v2 n base) nodes)) groups
           in map (merge_combo base) (product_lists expanded_groups))"
  by pat_completeness auto
termination
proof (relation "measure (\<lambda>(el, context). size el)", goal_cases)
  case 1
  then show ?case by simp
next
  case (2 el ctx base tx groups p t nodes n)
  then have "n \<in> set (children el)"
    using group_children_members [of t nodes "children el"] by auto
  then show ?case by (simp add: size_child)
qed

declare expand_node_v2.simps [simp del]

section \<open>Policy B: denormalised tables\<close>

text \<open>
  The values of a row of \<open>version3.py\<close>: strings from the document, the integer
  sequence number, and \<open>None\<close> for an absent value.
\<close>

datatype pyval = PNone | PStr string | PInt int

text \<open>
  The guard \<open>element.text and element.text.strip()\<close> and the value
  \<open>element.text.strip()\<close> stored under it.
\<close>

definition text_value :: "element \<Rightarrow> string option" where
  "text_value el =
     (case etext el of
        None \<Rightarrow> None
      | Some t \<Rightarrow> if t \<noteq> [] \<and> strip t \<noteq> [] then Some (strip t) else None)"

text \<open>
  \<open>_flatten_element\<close>: \<open>None\<close> is the sentinel for a subtree holding a repeated
  tag. Every group of \<open>group_children\<close> is non-empty (\<open>group_children_members\<close>), so
  \<open>children[0]\<close> is the head of the group.
\<close>

function flatten_element :: "element \<Rightarrow> string \<Rightarrow> pyval dict option" where
  "flatten_element el prefix =
     (let result =
            fold (\<lambda>(attr_name, attr_value) acc.
                    dict_set (if prefix \<noteq> [] then prefix @ tag el @ ''_'' @ attr_name
                              else tag el @ ''_'' @ attr_name) (PStr attr_value) acc)
              (attrib el) [];
          result =
            (case text_value el of
               Some s \<Rightarrow> dict_set (if prefix \<noteq> [] then prefix @ tag el else tag el) (PStr s) result
             | None \<Rightarrow> result);
          child_tags = group_children (children el)
      in if list_ex (\<lambda>(t, cs). length cs > 1) child_tags then None
         else
           fold (\<lambda>(t, cs) acc.
                   case acc of
                     None \<Rightarrow> None
                   | Some res \<Rightarrow>
                       (case flatten_element (hd cs)
                               (if prefix \<noteq> [] then prefix @ tag el @ ''_'' else tag el @ ''_'') of
                          None \<Rightarrow> None
                        | Some child_result \<Rightarrow> Some (dict_update res child_result)))
             child_tags (Some result))"
  by pat_completeness auto
termination
proof (relation "measure (\<lambda>(el, prefix). size el)", goal_cases)
  case 1
  then show ?case by simp
next
  case (2 el pfx r1 r2 groups p t cs res)
  then have "cs \<noteq> []" and "set cs \<subseteq> set (children el)"
    using group_children_members [of t cs "children el"] by auto
  then have "hd cs \<in> set (children el)" by auto
  then show ?case by (simp add: size_child)
qed

declare flatten_element.simps [simp del]

text \<open>
  \<open>_has_repetitive_descendants\<close>, with the \<open>defaultdict(int)\<close> of tag counts.
\<close>

definition tag_counts :: "element list \<Rightarrow> nat dict" where
  "tag_counts cs =
     fold (\<lambda>c m. dict_set (tag c) ((case map_of m (tag c) of None \<Rightarrow> 0 | Some n \<Rightarrow> n) + 1) m)
       cs []"

function has_repetitive_descendants :: "element \<Rightarrow> bool" where
  "has_repetitive_descendants el =
     (if list_ex (\<lambda>(t, n). n > 1) (tag_counts (children el)) then True
      else list_ex has_repetitive_descendants (children el))"
  by pat_completeness auto
termination
  by (relation "measure size") (auto simp: size_child)

declare has_repetitive_descendants.simps [simp del]

text \<open>
  The split of the groups in \<open>_extract_repetitive_data\<close> and its loop over the
  non-repetitive children: the loop either merges every flattened child into
  \<open>current_data\<close> (\<open>Inr\<close>), or stops at the first child whose flattening is \<open>None\<close> or
  empty (\<open>Inl\<close>, with that child and the data merged so far), where the source recurses
  into the child and returns.
\<close>

definition repetitive_groups :: "element list dict \<Rightarrow> element list dict" where
  "repetitive_groups child_tags = filter (\<lambda>(t, cs). length cs > 1) child_tags"

definition non_repetitive_groups :: "element list dict \<Rightarrow> element dict" where
  "non_repetitive_groups child_tags =
     map (\<lambda>(t, cs). (t, hd cs)) (filter (\<lambda>(t, cs). \<not> length cs > 1) child_tags)"

fun inline_non_repetitive :: "element dict \<Rightarrow> pyval dict \<Rightarrow> (element \<times> pyval dict) + pyval dict" where
  "inline_non_repetitive [] current_data = Inr current_data"
| "inline_non_repetitive ((t, child) # rest) current_data =
     (case flatten_element child [] of
        None \<Rightarrow> Inl (child, current_data)
      | Some flattened \<Rightarrow>
          if flattened \<noteq> [] then inline_non_repetitive rest (dict_update current_data flattened)
          else Inl (child, current_data))"

lemma inline_non_repetitive_Inl:
  "inline_non_repetitive nr cur = Inl (child, cur') \<Longrightarrow> child \<in> snd ` set nr"
  by (induction nr cur rule: inline_non_repetitive.induct)
    (auto split: option.splits if_splits)

lemma non_repetitive_groups_members:
  "(t, c) \<in> set (non_repetitive_groups (group_children cs)) \<Longrightarrow> c \<in> set cs"
proof -
  assume "(t, c) \<in> set (non_repetitive_groups (group_children cs))"
  then obtain ns where "(t, ns) \<in> set (group_children cs)" and "c = hd ns"
    by (auto simp: non_repetitive_groups_def)
  then show ?thesis using group_children_members [of t ns cs] by auto
qed

text \<open>
  The two nested loops over the repetitive groups,
  \<open>for tag, children in repetitive.items(): for idx, child in enumerate(children)\<close>,
  visit these pairs in this order.
\<close>

definition fan_out_items :: "element list dict \<Rightarrow> (nat \<times> element) list" where
  "fan_out_items repetitive = concat (map (\<lambda>(t, cs). enumerate 0 cs) repetitive)"

lemma fan_out_items_members:
  "(idx, child) \<in> set (fan_out_items (repetitive_groups (group_children cs))) \<Longrightarrow> child \<in> set cs"
proof -
  assume "(idx, child) \<in> set (fan_out_items (repetitive_groups (group_children cs)))"
  then obtain t ns where "(t, ns) \<in> set (group_children cs)" and "child \<in> set ns"
    by (auto simp: fan_out_items_def repetitive_groups_def in_set_enumerate_eq)
  then show ?thesis using group_children_members [of t ns cs] by auto
qed

text \<open>
  \<open>_extract_repetitive_data\<close>. The state is \<open>collected_data\<close> together with the
  number of clock readings taken so far; \<open>clock n\<close> is the text of the \<open>n\<close>-th reading of
  \<open>datetime.now().isoformat()\<close>.
\<close>

function extract_repetitive_data ::
  "(nat \<Rightarrow> string) \<Rightarrow> element \<Rightarrow> pyval dict \<Rightarrow> pyval dict list \<times> nat \<Rightarrow> pyval dict list \<times> nat"
where
  "extract_repetitive_data clock el parent_data st =
     (let child_tags = group_children (children el);
          repetitive = repetitive_groups child_tags;
          non_repetitive = non_repetitive_groups child_tags;
          current_data = parent_data;
          current_data =
            (case text_value el of
               Some s \<Rightarrow> dict_set (tag el) (PStr s) current_data
             | None \<Rightarrow> current_data);
          current_data =
            fold (\<lambda>(attr_name, attr_value) acc.
                    dict_set (tag el @ ''_'' @ attr_name) (PStr attr_value) acc)
              (attrib el) current_data
      in case inline_non_repetitive non_repetitive current_data of
           Inl (child, cur) \<Rightarrow> extract_repetitive_data clock child cur st
         | Inr cur \<Rightarrow>
             if repetitive \<noteq> [] then
               fold (\<lambda>(idx, child) st'.
                       extract_repetitive_data clock child
                         (dict_set ''_sequence_num'' (PInt (int idx + 1)) cur) st')
                 (fan_out_items repetitive) st
             else if \<not> dict_eq cur parent_data then
               (case st of
                  (collected_data, ticks) \<Rightarrow>
                    (collected_data @ [dict_set ''_load_timestamp'' (PStr (clock ticks)) cur],
                     Suc ticks))
             else st)"
  by pat_completeness auto
termination
proof (relation "measure (\<lambda>(clock, el, parent_data, st). size el)", goal_cases)
  case 1
  then show ?case by simp
next
  case (2 clock el pd st groups rep nonrep c1 c2 c3 x child cur)
  then have "child \<in> snd ` set (non_repetitive_groups (group_children (children el)))"
    using inline_non_repetitive_Inl by metis
  then have "child \<in> set (children el)"
    using non_repetitive_groups_members by force
  then show ?case by (simp add: size_child)
next
  case (3 clock el pd st groups rep nonrep c1 c2 c3 cur p idx child st2)
  then have "child \<in> set (children el)"
    using fan_out_items_members by force
  then show ?case by (simp add: size_child)
qed

declare extract_repetitive_data.simps [simp del]

text \<open>
  The elements below a node, in document order.
\<close>

fun descendants :: "element \<Rightarrow> element list" where
  "descendants (Element t a x cs) = concat (map (\<lambda>c. c # descendants c) cs)"

text \<open>
  \<open>root.find(".//" + data_node)\<close> hands the string to the path language of
  \<open>xml.etree.ElementPath\<close>, which either returns the first match, or \<open>None\<close>, or raises
  \<open>SyntaxError\<close>.
  \<^item> For an ASCII XML name without a colon (a letter or underscore, then letters, digits,
    underscores, hyphens and dots) the path has the three tokens \<open>.\<close>, \<open>//\<close> and the name:
    the result is the first element below the root, in document order, that has the tag.
  \<^item> For the empty string the path ends in \<open>/\<close> and is read as \<open>.//*\<close>; for this and for
    \<open>*\<close> the result is the first element below the root.
  \<^item> For a name of the same characters with a colon in it (\<open>ns:data\<close>) the path is one
    name token with a prefix; \<open>find\<close> is called without a prefix map, and the tokenizer
    raises \<open>SyntaxError\<close>.
  \<^item> Every other string is a path expression of its own (steps, predicates, attributes,
    qualified names in braces); its evaluation belongs to the library and is the parameter
    \<open>element_path\<close>.
\<close>

datatype py_error = SyntaxError

definition name_start_char :: "char \<Rightarrow> bool" where
  "name_start_char c = (c \<in> set ''abcdefghijklmnopqrstuvwxyzABCDEFGHIJKLMNOPQRSTUVWXYZ_'')"

definition name_char :: "char \<Rightarrow> bool" where
  "name_char c = (name_start_char c \<or> c \<in> set ''0123456789-.'')"

definition plain_tag_name :: "string \<Rightarrow> bool" where
  "plain_tag_name s = (case s of [] \<Rightarrow> False | c # cs \<Rightarrow> name_start_char c \<and> list_all name_char cs)"

definition prefixed_tag_name :: "string \<Rightarrow> bool" where
  "prefixed_tag_name s =
     (case s of
        [] \<Rightarrow> False
      | c # cs \<Rightarrow>
          name_start_char c \<and> list_all (\<lambda>c. name_char c \<or> c = CHR '':'') cs \<and> CHR '':'' \<in> set cs)"

type_synonym element_path = "string \<Rightarrow> element \<Rightarrow> py_error + element option"

definition find_data_element :: "element_path \<Rightarrow> string \<Rightarrow> element \<Rightarrow> py_error + element option" where
  "find_data_element element_path data_node root =
     (if tag root = data_node then Inr (Some root)
      else if plain_tag_name data_node then Inr (find (\<lambda>e. tag e = data_node) (descendants root))
      else if data_node = [] \<or> data_node = ''*''
      then Inr (case descendants root of [] \<Rightarrow> None | e # rest \<Rightarrow> Some e)
      else if prefixed_tag_name data_node then Inl SyntaxError
      else element_path data_node root)"

text \<open>
  One round of the loop of \<open>flatten_xml\<close> over the children of the data element.
  The state is \<open>tables\<close> with the number of clock readings so far.
\<close>

definition level1_parent_data :: "element \<Rightarrow> pyval dict" where
  "level1_parent_data child =
     (let parent_data = [];
          parent_data =
            (case text_value child of
               Some s \<Rightarrow> dict_set (tag child) (PStr s) parent_data
             | None \<Rightarrow> parent_data)
      in fold (\<lambda>(attr_name, attr_value) acc.
                 dict_set (tag child @ ''_'' @ attr_name) (PStr attr_value) acc)
           (attrib child) parent_data)"

definition level1_rows :: "(nat \<Rightarrow> string) \<Rightarrow> element \<Rightarrow> nat \<Rightarrow> pyval dict list \<times> nat" where
  "level1_rows clock child ticks =
     (if has_repetitive_descendants child then
        extract_repetitive_data clock child (level1_parent_data child) ([], ticks)
      else
        (case flatten_element child [] of
           None \<Rightarrow> ([], ticks)
         | Some flattened \<Rightarrow>
             if flattened \<noteq> []
             then ([dict_set ''_load_timestamp'' (PStr (clock ticks)) flattened], Suc ticks)
             else ([], ticks)))"

definition level1_step ::
  "(nat \<Rightarrow> string) \<Rightarrow> element \<Rightarrow> pyval dict list dict \<times> nat \<Rightarrow> pyval dict list dict \<times> nat"
where
  "level1_step clock child s =
     (case s of
        (tables, ticks) \<Rightarrow>
          (case level1_rows clock child ticks of
             (collected_data, ticks') \<Rightarrow>
               if collected_data \<noteq> [] then (dict_set (tag child) collected_data tables, ticks')
               else (tables, ticks')))"

text \<open>
  \<open>flatten_xml\<close>: an error of the path evaluation leaves the function as the exception
  does; a missing data element gives the empty \<open>tables\<close>.
\<close>

definition flatten_xml ::
  "element_path \<Rightarrow> (nat \<Rightarrow> string) \<Rightarrow> string \<Rightarrow> element \<Rightarrow> py_error + pyval dict list dict"
where
  "flatten_xml element_path clock data_node root =
     (case find_data_element element_path data_node root of
        Inl e \<Rightarrow> Inl e
      | Inr None \<Rightarrow> Inr []
      | Inr (Some data_element) \<Rightarrow>
          Inr (fst (fold (level1_step clock) (children data_element) ([], 0))))"

section \<open>Type inference\<close>

text \<open>
  The strings that \<open>int()\<close> and \<open>float()\<close> accept without raising \<open>ValueError\<close>, on
  ASCII text: surrounding whitespace is ignored; an integer is an optional sign and digits,
  where single underscores may separate digits; a float is an optional sign and either a
  decimal number with an optional exponent, or one of \<open>inf\<close>, \<open>infinity\<close>, \<open>nan\<close> in any
  letter case.
\<close>

definition is_digit :: "char \<Rightarrow> bool" where
  "is_digit c = (c \<in> set ''0123456789'')"

fun digitpart :: "string \<Rightarrow> bool" where
  "digitpart [] = False"
| "digitpart [c] = is_digit c"
| "digitpart (c # d # cs) =
     (is_digit c \<and> (if d = CHR ''_'' then digitpart cs else digitpart (d # cs)))"

definition drop_sign :: "string \<Rightarrow> string" where
  "drop_sign s = (case s of [] \<Rightarrow> [] | c # cs \<Rightarrow> if c = CHR ''+'' \<or> c = CHR ''-'' then cs else s)"

definition int_literal :: "string \<Rightarrow> bool" where
  "int_literal s = digitpart (drop_sign (strip s))"

definition lower_ascii :: "char \<Rightarrow> char" where
  "lower_ascii c =
     (case map_of (zip ''ABCDEFGHIJKLMNOPQRSTUVWXYZ'' ''abcdefghijklmnopqrstuvwxyz'') c of
        None \<Rightarrow> c
      | Some l \<Rightarrow> l)"

definition number_literal :: "string \<Rightarrow> bool" where
  "number_literal s =
     (let a = takeWhile (\<lambda>c. c \<noteq> CHR ''.'') s;
          b = dropWhile (\<lambda>c. c \<noteq> CHR ''.'') s
      in case b of
           [] \<Rightarrow> digitpart a
         | dot # frac \<Rightarrow> (a = [] \<and> digitpart frac) \<or> (digitpart a \<and> (frac = [] \<or> digitpart frac)))"

definition is_exp_mark :: "char \<Rightarrow> bool" where
  "is_exp_mark c = (c = CHR ''e'' \<or> c = CHR ''E'')"

definition floatnumber :: "string \<Rightarrow> bool" where
  "floatnumber s =
     (let m = takeWhile (\<lambda>c. \<not> is_exp_mark c) s;
          e = dropWhile (\<lambda>c. \<not> is_exp_mark c) s
      in case e of
           [] \<Rightarrow> number_literal m
         | mark # ex \<Rightarrow> number_literal m \<and> digitpart (drop_sign ex))"

definition float_literal :: "string \<Rightarrow> bool" where
  "float_literal s =
     (let body = drop_sign (strip s)
      in map lower_ascii body \<in> set [''inf'', ''infinity'', ''nan''] \<or> floatnumber body)"

text \<open>\<open>str()\<close> of a value: the decimal digits of an integer.\<close>

fun str_nat :: "nat \<Rightarrow> string" where
  "str_nat n = (if n < 10 then [''0123456789'' ! n] else str_nat (n div 10) @ [''0123456789'' ! (n mod 10)])"

definition py_str :: "pyval \<Rightarrow> string" where
  "py_str v =
     (case v of
        PNone \<Rightarrow> ''None''
      | PStr s \<Rightarrow> s
      | PInt i \<Rightarrow> if i < 0 then CHR ''-'' # str_nat (nat (- i)) else str_nat (nat i))"

text \<open>\<open>_infer_snowflake_type\<close>.\<close>

definition infer_snowflake_type :: "pyval \<Rightarrow> string" where
  "infer_snowflake_type v =
     (if v = PNone \<or> v = PStr [] then ''VARCHAR(500)''
      else
        let value_str = strip (py_str v)
        in if int_literal value_str then ''INTEGER''
           else if float_literal value_str then ''FLOAT''
           else if length value_str \<in> set [8, 10] \<and>
                   (count_list value_str CHR ''-'' = 2 \<or> count_list value_str CHR ''/'' = 2)
           then ''DATE''
           else
             let max_len = max (length value_str) 100
             in ''VARCHAR('' @ str_nat (min (max_len * 2) 16777216) @ '')'')"

text \<open>
  The order of the tests as the specification words it, on the value itself: empty or
  absent, integer literal, decimal literal, date shape by length and separators, and a text
  type sized from the length.
\<close>

definition spec_infer_type :: "string option \<Rightarrow> string" where
  "spec_infer_type v =
     (case v of
        None \<Rightarrow> ''VARCHAR(500)''
      | Some s \<Rightarrow>
          if s = [] then ''VARCHAR(500)''
          else if int_literal s then ''INTEGER''
          else if float_literal s then ''FLOAT''
          else if (length s = 8 \<or> length s = 10) \<and>
                  (count_list s CHR ''-'' = 2 \<or> count_list s CHR ''/'' = 2)
          then ''DATE''
          else ''VARCHAR('' @ str_nat (min (max (length s) 100 * 2) 16777216) @ '')'')"

section \<open>Sample documents\<close>

text \<open>\<open><data><item id="1">A</item><item id="2">B</item></data>\<close>\<close>

definition scenario_tree :: element where
  "scenario_tree =
     Element ''data'' [] None
       [Element ''item'' [(''id'', ''1'')] (Some ''A'') [],
        Element ''item'' [(''id'', ''2'')] (Some ''B'') []]"

text \<open>A path evaluation that rejects every expression handed to it.\<close>

definition rejecting_path :: element_path where
  "rejecting_path expr root = Inl SyntaxError"

text \<open>A path evaluation that raises nothing and finds nothing.\<close>

definition silent_path :: element_path where
  "silent_path expr root = Inr None"

text \<open>
  \<open><root xmlns:ns="u"><ns:data><row k="v"/></ns:data></root>\<close>, as the parser returns it:
  the tag of a qualified element is the namespace in braces and the local name.
\<close>

definition prefixed_tree :: element where
  "prefixed_tree =
     Element ''root'' [] None
       [Element ''{u}data'' [] None [Element ''{u}row'' [(''k'', ''v'')] None []]]"

text \<open>A clock whose readings differ from one another.\<close>

definition sample_clock :: "nat \<Rightarrow> string" where
  "sample_clock n = ''2025-01-01T00:00:'' @ str_nat (10 + n)"

text \<open>A node with two repeating groups of sizes 2 and 3 and nothing else.\<close>

definition two_groups_tree :: element where
  "two_groups_tree =
     Element ''r'' [] None
       [Element ''a'' [] None [], Element ''a'' [] None [],
        Element ''b'' [] None [], Element ''b'' [] None [], Element ''b'' [] None []]"

text \<open>A node with the non-repetitive children \<open>p\<close>, \<open>e\<close> (empty) and \<open>q\<close> and the repeating group \<open>a\<close>.\<close>

definition skipping_tree :: element where
  "skipping_tree =
     Element ''t'' [(''k'', ''v'')] None
       [Element ''p'' [] (Some ''x'') [], Element ''e'' [] None [],
        Element ''q'' [] (Some ''y'') [],
        Element ''a'' [] (Some ''1'') [], Element ''a'' [] (Some ''2'') []]"

text \<open>A node with the two repeating groups \<open>a\<close> and \<open>b\<close>, two children each.\<close>

definition fan_out_tree :: element where
  "fan_out_tree =
     Element ''t'' [] None
       [Element ''a'' [] (Some ''1'') [], Element ''a'' [] (Some ''2'') [],
        Element ''b'' [] (Some ''x'') [], Element ''b'' [] (Some ''y'') []]"

text \<open>A node with text and one child.\<close>

definition mixed_text_tree :: element where
  "mixed_text_tree =
     Element ''r'' [] (Some ''hello'') [Element ''a'' [(''b'', ''1'')] None []]"

text \<open>Two sibling groups that write the same column: the attribute \<open>b\<close> of \<open>a\<close> and the text of \<open>a_b\<close>.\<close>

definition collision_tree :: element where
  "collision_tree =
     Element ''r'' [] None
       [Element ''a'' [(''b'', ''1'')] None [], Element ''a_b'' [] (Some ''2'') []]"

text \<open>A document without repeated tags; the child \<open>q\<close> holds no data.\<close>

definition plain_tree :: element where
  "plain_tree =
     Element ''data'' [] None
       [Element ''p'' [(''id'', ''1'')] None [Element ''n'' [] (Some ''x'') []],
        Element ''q'' [] None []]"

section \<open>Policy B: the data of a node and the rows of an extraction\<close>

text \<open>
  The data of the node itself, as \<open>_extract_repetitive_data\<close> builds \<open>current_data\<close> from
  \<open>parent_data\<close> before its loops, and the number of rows an extraction adds.
\<close>

definition own_data :: "element \<Rightarrow> pyval dict \<Rightarrow> pyval dict" where
  "own_data el parent_data =
     fold (\<lambda>(attr_name, attr_value) acc.
             dict_set (tag el @ ''_'' @ attr_name) (PStr attr_value) acc)
       (attrib el)
       (case text_value el of
          Some s \<Rightarrow> dict_set (tag el) (PStr s) parent_data
        | None \<Rightarrow> parent_data)"

definition row_count :: "(nat \<Rightarrow> string) \<Rightarrow> element \<Rightarrow> pyval dict \<Rightarrow> nat" where
  "row_count clock el parent_data =
     length (fst (extract_repetitive_data clock el parent_data ([], 0)))"

section \<open>Policy A: the row lists of the tag groups\<close>

text \<open>
  The row lists of the tag groups of a node, as \<open>expand_node\<close> passes them to
  \<open>itertools.product\<close>.
\<close>

definition expanded_groups :: "element \<Rightarrow> string dict \<Rightarrow> string \<Rightarrow> string dict list list" where
  "expanded_groups el ctx path =
     map (\<lambda>(t, nodes).
            concat (map (\<lambda>n. expand_node n
                (add_attributes (column_prefix path (tag el)) (attrib el) ctx)
                (column_prefix path (tag el))) nodes))
       (group_children (children el))"

section \<open>Documents without repeated tags\<close>

text \<open>
  A tree in which no node has two children with the same tag, and a subtree that holds an
  attribute or a non-blank text somewhere.
\<close>

fun no_repeated_tags :: "element \<Rightarrow> bool" where
  "no_repeated_tags (Element t a x cs) = (distinct (map tag cs) \<and> list_all no_repeated_tags cs)"

fun has_data :: "element \<Rightarrow> bool" where
  "has_data (Element t a x cs) =
     (a \<noteq> [] \<or> text_value (Element t a x cs) \<noteq> None \<or> list_ex has_data cs)"

section \<open>Policy B: the parts of the inline flattening\<close>

text \<open>
  The round of the second loop of \<open>_flatten_element\<close>, and the values it starts from:
  the prefix handed to the children, the attribute columns and the data of the node itself.
\<close>

definition flatten_child_step ::
  "string \<Rightarrow> string \<times> element list \<Rightarrow> pyval dict option \<Rightarrow> pyval dict option" where
  "flatten_child_step p =
     (\<lambda>(t, cs) acc.
        case acc of
          None \<Rightarrow> None
        | Some res \<Rightarrow>
            (case flatten_element (hd cs) p of
               None \<Rightarrow> None
             | Some child_result \<Rightarrow> Some (dict_update res child_result)))"

definition flatten_prefix :: "element \<Rightarrow> string \<Rightarrow> string" where
  "flatten_prefix el p = (if p \<noteq> [] then p @ tag el @ ''_'' else tag el @ ''_'')"

definition flatten_attributes :: "element \<Rightarrow> string \<Rightarrow> pyval dict" where
  "flatten_attributes el p =
     fold (\<lambda>(attr_name, attr_value) acc.
             dict_set (if p \<noteq> [] then p @ tag el @ ''_'' @ attr_name
                       else tag el @ ''_'' @ attr_name) (PStr attr_value) acc)
       (attrib el) []"

definition flatten_own :: "element \<Rightarrow> string \<Rightarrow> pyval dict" where
  "flatten_own el p =
     (case text_value el of
        Some s \<Rightarrow> dict_set (if p \<noteq> [] then p @ tag el else tag el) (PStr s) (flatten_attributes el p)
      | None \<Rightarrow> flatten_attributes el p)"

section \<open>Type inference: the order of the tests\<close>

lemmas literal_defs =
  strip_def is_space_def int_literal_def float_literal_def drop_sign_def is_digit_def
  floatnumber_def number_literal_def is_exp_mark_def lower_ascii_def

lemma infer_snowflake_type_str:
  "infer_snowflake_type (PStr s) =
     (if s = [] then ''VARCHAR(500)''
      else if strip s = [] then ''VARCHAR(200)''
      else spec_infer_type (Some (strip s)))"
proof -
  have blank: "strip [] = []" by (simp add: strip_def)
  have "\<not> int_literal []" "\<not> float_literal []"
    by (simp_all add: literal_defs)
  then show ?thesis
    by (auto simp: infer_snowflake_type_def spec_infer_type_def py_str_def Let_def int_literal_def
        float_literal_def blank)
qed

lemma long_text_facts:
  "strip (replicate 150 CHR ''x'') = replicate 150 CHR ''x''"
  "\<not> int_literal (replicate 150 CHR ''x'')"
  "\<not> float_literal (replicate 150 CHR ''x'')"
  by code_simp+

lemma infer_long_text: "infer_snowflake_type (PStr (replicate 150 CHR ''x'')) = ''VARCHAR(300)''"
proof -
  have "replicate 150 CHR ''x'' \<noteq> []" by simp
  then show ?thesis
    using long_text_facts
    by (simp add: infer_snowflake_type_str spec_infer_type_def)
qed

text \<open>
  C4, as amended. An absent or empty value is \<open>VARCHAR(500)\<close>. Every other value is first
  trimmed of its surrounding whitespace, and the tests of the specification (integer
  literal, decimal literal, date shape, sized text) run in their order on the trimmed value,
  with its length; a value of whitespace only is \<open>VARCHAR(200)\<close>. The five examples hold,
  the last for 150 letters \<open>x\<close>.
\<close>

theorem infer_snowflake_type_order:
  "infer_snowflake_type PNone = ''VARCHAR(500)'' \<and>
   infer_snowflake_type (PStr s) =
     (if s = [] then ''VARCHAR(500)''
      else if strip s = [] then ''VARCHAR(200)''
      else spec_infer_type (Some (strip s))) \<and>
   infer_snowflake_type (PStr ''42'') = ''INTEGER'' \<and>
   infer_snowflake_type (PStr ''3.14'') = ''FLOAT'' \<and>
   infer_snowflake_type (PStr ''2024-01-01'') = ''DATE'' \<and>
   infer_snowflake_type (PStr []) = ''VARCHAR(500)'' \<and>
   infer_snowflake_type (PStr (replicate 150 CHR ''x'')) = ''VARCHAR(300)''"
proof -
  have "infer_snowflake_type PNone = ''VARCHAR(500)''"
    by (simp add: infer_snowflake_type_def)
  moreover have "infer_snowflake_type (PStr ''42'') = ''INTEGER''"
    by (simp add: infer_snowflake_type_def py_str_def literal_defs)
  moreover have "infer_snowflake_type (PStr ''3.14'') = ''FLOAT''"
    by (simp add: infer_snowflake_type_def py_str_def literal_defs)
  moreover have "infer_snowflake_type (PStr ''2024-01-01'') = ''DATE''"
    by (simp add: infer_snowflake_type_def py_str_def literal_defs)
  moreover have "infer_snowflake_type (PStr []) = ''VARCHAR(500)''"
    by (simp add: infer_snowflake_type_def)
  ultimately show ?thesis
    using infer_snowflake_type_str [of s] infer_long_text by simp
qed

text \<open>
  C4 as stated fails on a value with surrounding whitespace: the eleven characters
  \<open>" 2024-01-01"\<close> are neither 8 nor 10 long, so the stated order ends in
  \<open>VARCHAR(200)\<close>, and the code answers \<open>DATE\<close>.
\<close>

theorem infer_snowflake_type_untrimmed_counterexample:
  "infer_snowflake_type (PStr '' 2024-01-01'') = ''DATE'' \<and>
   spec_infer_type (Some '' 2024-01-01'') = ''VARCHAR(200)'' \<and>
   infer_snowflake_type (PStr '' 2024-01-01'') \<noteq> spec_infer_type (Some '' 2024-01-01'')"
  by (simp add: infer_snowflake_type_def spec_infer_type_def py_str_def literal_defs)

section \<open>Policy A: the number of rows\<close>

lemma length_product_lists_prod: "length (product_lists xss) = prod_list (map length xss)"
  by (induction xss) (simp_all add: length_concat comp_def sum_list_triv)

lemma two_groups_rows: "length (expand_node two_groups_tree [] []) = 6"
  by code_simp

text \<open>
  C5. At a node with children, the number of rows of \<open>expand_node\<close> is the product, over the
  tag groups of the node, of the sum of the numbers of rows that the nodes of the group
  expand to.
\<close>

theorem expand_node_row_count:
  assumes "children el \<noteq> []"
  shows "length (expand_node el ctx path) =
     prod_list (map (\<lambda>(t, nodes).
         sum_list (map (\<lambda>n. length (expand_node n
             (add_attributes (column_prefix path (tag el)) (attrib el) ctx)
             (column_prefix path (tag el)))) nodes))
       (group_children (children el)))"
  using assms
  by (subst expand_node.simps)
    (simp add: Let_def length_product_lists_prod length_concat comp_def split_def)

theorem expand_node_row_count_witness:
  "children two_groups_tree \<noteq> [] \<and>
   length (expand_node two_groups_tree [] []) = 6 \<and>
   prod_list (map (\<lambda>(t, nodes).
         sum_list (map (\<lambda>n. length (expand_node n
             (add_attributes (column_prefix [] (tag two_groups_tree)) (attrib two_groups_tree) [])
             (column_prefix [] (tag two_groups_tree)))) nodes))
       (group_children (children two_groups_tree))) = 6"
proof -
  have c: "children two_groups_tree \<noteq> []"
    by (simp add: two_groups_tree_def)
  show ?thesis
    using expand_node_row_count [OF c, of "[]" "[]"] c two_groups_rows by simp
qed

section \<open>Policy B: a missing data node\<close>

lemma find_data_element_None:
  "tag root \<noteq> data_node \<Longrightarrow> plain_tag_name data_node \<Longrightarrow>
   \<forall>e \<in> set (descendants root). tag e \<noteq> data_node \<Longrightarrow>
   find_data_element element_path data_node root = Inr None"
  by (auto simp: find_data_element_def find_None_iff)

text \<open>
  C8, as amended. When the designated root tag is a plain tag name, an ASCII XML name
  without a colon, and neither the root nor any element below it has that tag,
  \<open>flatten_xml\<close> returns the empty set of tables and raises nothing, whatever the path
  language does with other expressions.
\<close>

theorem flatten_xml_missing_root:
  assumes "plain_tag_name data_node"
    and "tag root \<noteq> data_node" and "\<forall>e \<in> set (descendants root). tag e \<noteq> data_node"
  shows "flatten_xml element_path clock data_node root = Inr []"
  using assms by (simp add: flatten_xml_def find_data_element_None)

theorem flatten_xml_missing_root_witness:
  "plain_tag_name ''data'' \<and>
   tag (Element ''root'' [] None [Element ''row'' [(''k'', ''v'')] None []]) \<noteq> ''data'' \<and>
   list_all (\<lambda>e. tag e \<noteq> ''data'')
     (descendants (Element ''root'' [] None [Element ''row'' [(''k'', ''v'')] None []])) \<and>
   flatten_xml rejecting_path sample_clock ''data''
     (Element ''root'' [] None [Element ''row'' [(''k'', ''v'')] None []]) = Inr []"
proof -
  have p: "plain_tag_name ''data''"
    by (simp add: plain_tag_name_def name_start_char_def name_char_def)
  have a: "tag (Element ''root'' [] None [Element ''row'' [(''k'', ''v'')] None []]) \<noteq> ''data''"
    by simp
  have b: "\<forall>e \<in> set (descendants (Element ''root'' [] None [Element ''row'' [(''k'', ''v'')] None []])).
             tag e \<noteq> ''data''"
    by simp
  show ?thesis
    using flatten_xml_missing_root [OF p a b, of rejecting_path sample_clock] p a b
    by (simp add: list_all_iff)
qed

text \<open>
  C8 as stated fails for a designated root tag with a prefix: no element of the sample
  document has the tag \<open>ns:data\<close>, and \<open>flatten_xml\<close> raises \<open>SyntaxError\<close> instead of
  returning the empty set of tables, also where the path language itself raises nothing.
\<close>

theorem flatten_xml_prefixed_root_counterexample:
  "tag prefixed_tree \<noteq> ''ns:data'' \<and>
   list_all (\<lambda>e. tag e \<noteq> ''ns:data'') (descendants prefixed_tree) \<and>
   flatten_xml silent_path sample_clock ''ns:data'' prefixed_tree = Inl SyntaxError \<and>
   flatten_xml silent_path sample_clock ''ns:data'' prefixed_tree \<noteq> Inr []"
  by code_simp

section \<open>The two-item scenario\<close>

lemma scenario_tables:
  "flatten_xml element_path clock ''data'' scenario_tree =
     Inr [(''item'', [[(''item_id'', PStr ''2''), (''item'', PStr ''B''),
                       (''_load_timestamp'', PStr (clock 1))]])]"
  by code_simp

lemma scenario_first_child_tables:
  "flatten_xml element_path clock ''data''
     (Element ''data'' [] None [Element ''item'' [(''id'', ''1'')] (Some ''A'') []]) =
     Inr [(''item'', [[(''item_id'', PStr ''1''), (''item'', PStr ''A''),
                       (''_load_timestamp'', PStr (clock 0))]])]"
  by code_simp

lemma scenario_expand:
  "expand_node scenario_tree [] [] =
     [[(''data_item_id'', ''1''), (''data_item'', ''A'')],
      [(''data_item_id'', ''2''), (''data_item'', ''B'')]]"
  by code_simp

text \<open>
  C1, as amended. On the scenario document, \<open>expand_node\<close> from the empty context and the
  empty path returns exactly two rows with the columns \<open>data_item_id\<close> and \<open>data_item\<close>;
  \<open>flatten_xml\<close> with the data node \<open>data\<close> returns one table, named \<open>item\<close>, and every
  row of it has the columns \<open>item_id\<close>, \<open>item\<close> and \<open>_load_timestamp\<close>, without a sequence
  number.
\<close>

theorem scenario_rows:
  "expand_node scenario_tree [] [] =
     [[(''data_item_id'', ''1''), (''data_item'', ''A'')],
      [(''data_item_id'', ''2''), (''data_item'', ''B'')]] \<and>
   (\<exists>tables. flatten_xml element_path clock ''data'' scenario_tree = Inr tables \<and>
      map fst tables = [''item''] \<and>
      set (map (map fst) (concat (map snd tables))) =
        {[''item_id'', ''item'', ''_load_timestamp'']})"
  by (simp add: scenario_expand scenario_tables)

text \<open>
  C1 as stated fails on the Policy B side: the table \<open>item\<close> does not hold two rows
  numbered 1 and 2.
\<close>

theorem scenario_policy_b_counterexample:
  "flatten_xml rejecting_path sample_clock ''data'' scenario_tree =
     Inr [(''item'', [[(''item_id'', PStr ''2''), (''item'', PStr ''B''),
                       (''_load_timestamp'', PStr (sample_clock 1))]])] \<and>
   \<not> (\<exists>tables rows.
          flatten_xml rejecting_path sample_clock ''data'' scenario_tree = Inr tables \<and>
          map_of tables ''item'' = Some rows \<and> length rows = 2 \<and>
          map (\<lambda>r. map_of r ''_sequence_num'') rows = [Some (PInt 1), Some (PInt 2)])"
  by (simp add: scenario_tables)

text \<open>
  C3 on the code. With the first \<open>item\<close> alone the table \<open>item\<close> holds its row; after the
  second \<open>item\<close> of the scenario document the table holds the row of the second child only:
  \<open>tables[table_name] = collected_data\<close> replaced the rows of the first.
\<close>

theorem flatten_xml_replaces_table:
  "flatten_xml element_path clock ''data''
     (Element ''data'' [] None [Element ''item'' [(''id'', ''1'')] (Some ''A'') []]) =
     Inr [(''item'', [[(''item_id'', PStr ''1''), (''item'', PStr ''A''),
                       (''_load_timestamp'', PStr (clock 0))]])] \<and>
   flatten_xml element_path clock ''data'' scenario_tree =
     Inr [(''item'', [[(''item_id'', PStr ''2''), (''item'', PStr ''B''),
                       (''_load_timestamp'', PStr (clock 1))]])]"
  by (simp add: scenario_tables scenario_first_child_tables)

section \<open>Policy B: extraction\<close>

lemma extract_unfold:
  "extract_repetitive_data clock el parent_data st =
     (case inline_non_repetitive (non_repetitive_groups (group_children (children el)))
             (own_data el parent_data) of
        Inl (child, cur) \<Rightarrow> extract_repetitive_data clock child cur st
      | Inr cur \<Rightarrow>
          if repetitive_groups (group_children (children el)) \<noteq> [] then
            fold (\<lambda>(idx, child) st'.
                    extract_repetitive_data clock child
                      (dict_set ''_sequence_num'' (PInt (int idx + 1)) cur) st')
              (fan_out_items (repetitive_groups (group_children (children el)))) st
          else if \<not> dict_eq cur parent_data then
            (case st of
               (collected_data, ticks) \<Rightarrow>
                 (collected_data @ [dict_set ''_load_timestamp'' (PStr (clock ticks)) cur],
                  Suc ticks))
          else st)"
  by (subst extract_repetitive_data.simps) (simp add: Let_def own_data_def)

lemma inline_non_repetitive_stops:
  "inline_non_repetitive pre cur0 = Inr cur \<Longrightarrow>
   flatten_element c [] = None \<or> flatten_element c [] = Some [] \<Longrightarrow>
   inline_non_repetitive (pre @ (t, c) # post) cur0 = Inl (c, cur)"
  by (induction pre cur0 rule: inline_non_repetitive.induct)
    (auto split: option.splits if_splits)

lemma flatten_empty_leaf:
  "attrib c = [] \<Longrightarrow> text_value c = None \<Longrightarrow> children c = [] \<Longrightarrow>
   flatten_element c prefix = Some []"
  by (subst flatten_element.simps) (simp add: group_children_def)

lemma extract_empty_leaf:
  "attrib c = [] \<Longrightarrow> text_value c = None \<Longrightarrow> children c = [] \<Longrightarrow>
   extract_repetitive_data clock c cur st = st"
  by (subst extract_unfold)
    (simp add: group_children_def non_repetitive_groups_def repetitive_groups_def own_data_def
      dict_eq_def)

text \<open>
  C10. When the loop over the non-repetitive children reaches a child whose inline
  flattening is \<open>None\<close> or the empty dictionary, the extraction of the node is the
  extraction of that child with the data merged so far: the later non-repetitive children
  and the repeating groups of the node play no part. A child without attributes, text and
  children flattens to the empty dictionary, and the extraction then adds no row at all.
\<close>

theorem extract_returns_at_unflattenable_child:
  assumes "non_repetitive_groups (group_children (children el)) = pre @ (t, c) # post"
    and "inline_non_repetitive pre (own_data el parent_data) = Inr cur"
    and "flatten_element c [] = None \<or> flatten_element c [] = Some []"
  shows "extract_repetitive_data clock el parent_data st =
           extract_repetitive_data clock c cur st \<and>
         (attrib c = [] \<and> text_value c = None \<and> children c = [] \<longrightarrow>
            flatten_element c [] = Some [] \<and>
            extract_repetitive_data clock el parent_data st = st)"
proof -
  have "inline_non_repetitive (non_repetitive_groups (group_children (children el)))
          (own_data el parent_data) = Inl (c, cur)"
    using assms by (simp add: inline_non_repetitive_stops)
  then have step: "extract_repetitive_data clock el parent_data st =
      extract_repetitive_data clock c cur st"
    by (subst extract_unfold) simp
  then show ?thesis
    by (simp add: flatten_empty_leaf extract_empty_leaf)
qed

lemma skipping_tree_facts:
  "non_repetitive_groups (group_children (children skipping_tree)) =
     [(''p'', Element ''p'' [] (Some ''x'') [])] @ (''e'', Element ''e'' [] None []) #
     [(''q'', Element ''q'' [] (Some ''y'') [])]"
  "inline_non_repetitive [(''p'', Element ''p'' [] (Some ''x'') [])] (own_data skipping_tree []) =
     Inr [(''t_k'', PStr ''v''), (''p'', PStr ''x'')]"
  "flatten_element (Element ''e'' [] None []) [] = Some []"
  "repetitive_groups (group_children (children skipping_tree)) =
     [(''a'', [Element ''a'' [] (Some ''1'') [], Element ''a'' [] (Some ''2'') []])]"
  by code_simp+

text \<open>
  The sample node has the children \<open>p\<close>, the empty \<open>e\<close>, \<open>q\<close> and a repeating group
  \<open>a\<close>; nothing is collected.
\<close>

theorem extract_returns_at_unflattenable_child_witness:
  "non_repetitive_groups (group_children (children skipping_tree)) =
     [(''p'', Element ''p'' [] (Some ''x'') [])] @ (''e'', Element ''e'' [] None []) #
     [(''q'', Element ''q'' [] (Some ''y'') [])] \<and>
   inline_non_repetitive [(''p'', Element ''p'' [] (Some ''x'') [])] (own_data skipping_tree []) =
     Inr [(''t_k'', PStr ''v''), (''p'', PStr ''x'')] \<and>
   flatten_element (Element ''e'' [] None []) [] = Some [] \<and>
   repetitive_groups (group_children (children skipping_tree)) =
     [(''a'', [Element ''a'' [] (Some ''1'') [], Element ''a'' [] (Some ''2'') []])] \<and>
   extract_repetitive_data sample_clock skipping_tree [] ([], 0) = ([], 0)"
proof -
  have f3: "flatten_element (Element ''e'' [] None []) [] = None \<or>
      flatten_element (Element ''e'' [] None []) [] = Some []"
    using skipping_tree_facts(3) by simp
  have leaf: "attrib (Element ''e'' [] None []) = [] \<and> text_value (Element ''e'' [] None []) = None \<and>
      children (Element ''e'' [] None []) = []"
    by (simp add: text_value_def)
  have "extract_repetitive_data sample_clock skipping_tree [] ([], 0) = ([], 0)"
    using extract_returns_at_unflattenable_child
      [OF skipping_tree_facts(1) skipping_tree_facts(2) f3, of sample_clock "([], 0)"] leaf
    by blast
  then show ?thesis
    using skipping_tree_facts by blast
qed

lemma fold_row_count:
  assumes "\<And>x c t. x \<in> set xs \<Longrightarrow> length (fst (F x (c, t))) = length c + n x"
  shows "length (fst (fold F xs (c, t))) = length c + sum_list (map n xs)"
  using assms
proof (induction xs arbitrary: c t)
  case Nil
  then show ?case by simp
next
  case (Cons x xs)
  obtain c' t' where s: "F x (c, t) = (c', t')" by (cases "F x (c, t)")
  have "length c' = length c + n x"
    using Cons.prems [of x c t] s by simp
  moreover have "length (fst (fold F xs (c', t'))) = length c' + sum_list (map n xs)"
    using Cons.prems by (intro Cons.IH) simp
  ultimately show ?case using s by simp
qed

lemma extract_length:
  "length (fst (extract_repetitive_data clock el pd (c, t))) =
     length c + row_count clock el pd"
proof (induction "size el" arbitrary: el pd c t rule: less_induct)
  case less
  let ?G = "group_children (children el)"
  let ?inl = "inline_non_repetitive (non_repetitive_groups ?G) (own_data el pd)"
  show ?case
  proof (cases ?inl)
    case (Inl a)
    obtain child cur where a: "a = (child, cur)" by (cases a)
    have "child \<in> set (children el)"
      using Inl a inline_non_repetitive_Inl non_repetitive_groups_members by force
    then have "size child < size el" by (rule size_child)
    then have H: "\<And>c t. length (fst (extract_repetitive_data clock child cur (c, t))) =
        length c + row_count clock child cur"
      using less by blast
    have e: "\<And>st. extract_repetitive_data clock el pd st =
        extract_repetitive_data clock child cur st"
      using Inl a by (subst extract_unfold) simp
    have "row_count clock el pd = row_count clock child cur"
      by (simp add: row_count_def e)
    then show ?thesis by (simp add: e H)
  next
    case (Inr cur)
    show ?thesis
    proof (cases "repetitive_groups ?G \<noteq> []")
      case True
      let ?items = "fan_out_items (repetitive_groups ?G)"
      let ?F = "\<lambda>(idx, child) st'. extract_repetitive_data clock child
                  (dict_set ''_sequence_num'' (PInt (int idx + 1)) cur) st'"
      let ?n = "\<lambda>(idx, child). row_count clock child
                  (dict_set ''_sequence_num'' (PInt (int idx + 1)) cur)"
      have step: "\<And>x c t. x \<in> set ?items \<Longrightarrow>
          length (fst (?F x (c, t))) = length c + ?n x"
      proof -
        fix x :: "nat \<times> element" and c t
        assume x: "x \<in> set ?items"
        obtain idx child where xe: "x = (idx, child)" by (cases x)
        have "child \<in> set (children el)"
          using x xe fan_out_items_members by force
        then have "size child < size el" by (rule size_child)
        then show "length (fst (?F x (c, t))) = length c + ?n x"
          using less xe by simp
      qed
      have sum: "\<And>c t. length (fst (fold ?F ?items (c, t))) =
          length c + sum_list (map ?n ?items)"
        using step by (rule fold_row_count)
      have e: "\<And>st. extract_repetitive_data clock el pd st = fold ?F ?items st"
        using Inr True by (subst extract_unfold) simp
      have "row_count clock el pd = sum_list (map ?n ?items)"
        using sum [of "[]" 0] by (simp add: row_count_def e)
      then show ?thesis by (simp add: e sum)
    next
      case False
      have e: "\<And>st. extract_repetitive_data clock el pd st =
          (if \<not> dict_eq cur pd then
             (case st of
                (collected_data, ticks) \<Rightarrow>
                  (collected_data @ [dict_set ''_load_timestamp'' (PStr (clock ticks)) cur],
                   Suc ticks))
           else st)"
        using Inr False by (subst extract_unfold) simp
      show ?thesis by (simp add: row_count_def e)
    qed
  qed
qed

lemma fan_out_sum:
  "sum_list (map f (fan_out_items groups)) =
     sum_list (map (\<lambda>(t, cs). sum_list (map f (enumerate 0 cs))) groups)"
  by (induction groups) (auto simp: fan_out_items_def)

text \<open>
  C2, as amended. At a node whose non-repetitive children were all flattened inline and
  that has a repeating group, every repeating group is fanned out in turn, in first-seen
  order: each child of each group is extracted directly from the node, with the data of the
  node and its 1-based rank in its group. The rows added at the node are as many as the sum,
  over the groups and their children, of the rows each child adds: the groups are not
  cross-multiplied, and a later group is not processed inside the branches of an earlier one.
\<close>

theorem fan_out_row_count:
  assumes "inline_non_repetitive (non_repetitive_groups (group_children (children el)))
             (own_data el parent_data) = Inr cur"
    and "repetitive_groups (group_children (children el)) \<noteq> []"
  shows "extract_repetitive_data clock el parent_data st =
           fold (\<lambda>(idx, child) st'.
                   extract_repetitive_data clock child
                     (dict_set ''_sequence_num'' (PInt (int idx + 1)) cur) st')
             (fan_out_items (repetitive_groups (group_children (children el)))) st \<and>
         length (fst (extract_repetitive_data clock el parent_data st)) =
           length (fst st) +
           sum_list (map (\<lambda>(t, cs).
               sum_list (map (\<lambda>(idx, child).
                   row_count clock child (dict_set ''_sequence_num'' (PInt (int idx + 1)) cur))
                 (enumerate 0 cs)))
             (repetitive_groups (group_children (children el))))"
proof -
  let ?items = "fan_out_items (repetitive_groups (group_children (children el)))"
  let ?F = "\<lambda>(idx, child) st'. extract_repetitive_data clock child
              (dict_set ''_sequence_num'' (PInt (int idx + 1)) cur) st'"
  let ?n = "\<lambda>(idx, child). row_count clock child
              (dict_set ''_sequence_num'' (PInt (int idx + 1)) cur)"
  have e: "extract_repetitive_data clock el parent_data st = fold ?F ?items st"
    using assms by (subst extract_unfold) simp
  have "\<And>x c t. x \<in> set ?items \<Longrightarrow> length (fst (?F x (c, t))) = length c + ?n x"
    by (auto simp: extract_length)
  then have "length (fst (fold ?F ?items (fst st, snd st))) =
      length (fst st) + sum_list (map ?n ?items)"
    by (rule fold_row_count)
  then show ?thesis
    using e by (simp add: fan_out_sum)
qed

lemma fan_out_tree_facts:
  "inline_non_repetitive (non_repetitive_groups (group_children (children fan_out_tree)))
     (own_data fan_out_tree []) = Inr []"
  "repetitive_groups (group_children (children fan_out_tree)) =
     [(''a'', [Element ''a'' [] (Some ''1'') [], Element ''a'' [] (Some ''2'') []]),
      (''b'', [Element ''b'' [] (Some ''x'') [], Element ''b'' [] (Some ''y'') []])]"
  "extract_repetitive_data sample_clock fan_out_tree [] ([], 0) =
     ([[(''_sequence_num'', PInt 1), (''a'', PStr ''1''), (''_load_timestamp'', PStr (sample_clock 0))],
       [(''_sequence_num'', PInt 2), (''a'', PStr ''2''), (''_load_timestamp'', PStr (sample_clock 1))],
       [(''_sequence_num'', PInt 1), (''b'', PStr ''x''), (''_load_timestamp'', PStr (sample_clock 2))],
       [(''_sequence_num'', PInt 2), (''b'', PStr ''y''), (''_load_timestamp'', PStr (sample_clock 3))]],
      4)"
  by code_simp+

theorem fan_out_row_count_witness:
  "inline_non_repetitive (non_repetitive_groups (group_children (children fan_out_tree)))
     (own_data fan_out_tree []) = Inr [] \<and>
   repetitive_groups (group_children (children fan_out_tree)) \<noteq> [] \<and>
   length (fst (extract_repetitive_data sample_clock fan_out_tree [] ([], 0))) = 4 \<and>
   length (fst ([] :: pyval dict list, 0 :: nat)) +
     sum_list (map (\<lambda>(t, cs).
         sum_list (map (\<lambda>(idx, child).
             row_count sample_clock child (dict_set ''_sequence_num'' (PInt (int idx + 1)) []))
           (enumerate 0 cs)))
       (repetitive_groups (group_children (children fan_out_tree)))) = 4"
proof -
  have ne: "repetitive_groups (group_children (children fan_out_tree)) \<noteq> []"
    using fan_out_tree_facts(2) by simp
  have len: "length (fst (extract_repetitive_data sample_clock fan_out_tree [] ([], 0))) = 4"
    using fan_out_tree_facts(3) by simp
  show ?thesis
    using fan_out_row_count [OF fan_out_tree_facts(1) ne, of sample_clock "([], 0)"] ne len
      fan_out_tree_facts(1)
    by simp
qed

text \<open>
  C2 as stated fails: with the groups \<open>a\<close> and \<open>b\<close> under one node, the rows of the
  second group are rows of their own, reached without passing through a child of the first
  group; they hold no column of the group \<open>a\<close>.
\<close>

theorem fan_out_counterexample:
  "extract_repetitive_data sample_clock fan_out_tree [] ([], 0) =
     ([[(''_sequence_num'', PInt 1), (''a'', PStr ''1''), (''_load_timestamp'', PStr (sample_clock 0))],
       [(''_sequence_num'', PInt 2), (''a'', PStr ''2''), (''_load_timestamp'', PStr (sample_clock 1))],
       [(''_sequence_num'', PInt 1), (''b'', PStr ''x''), (''_load_timestamp'', PStr (sample_clock 2))],
       [(''_sequence_num'', PInt 2), (''b'', PStr ''y''), (''_load_timestamp'', PStr (sample_clock 3))]],
      4) \<and>
   map (\<lambda>r. map_of r ''a'')
     (filter (\<lambda>r. map_of r ''b'' \<noteq> None)
        (fst (extract_repetitive_data sample_clock fan_out_tree [] ([], 0)))) = [None, None]"
  by (simp add: fan_out_tree_facts(3))

section \<open>Policy A: text of a node with children, and merging sibling groups\<close>

text \<open>
  C9. For a node with at least one child, the rows of \<open>expand_node\<close> are the rows of the
  same node without text, in \<open>app.py\<close> and in \<open>version2.py\<close>: the text of the node is
  written to no column. A node without children and with non-empty trimmed text gets its
  text column.
\<close>

theorem expand_node_ignores_mixed_text:
  assumes "cs \<noteq> []"
  shows "expand_node (Element t a x cs) ctx path = expand_node (Element t a None cs) ctx path \<and>
         expand_node_v2 (Element t a x cs) ctx = expand_node_v2 (Element t a None cs) ctx \<and>
         (strip s \<noteq> [] \<longrightarrow>
            expand_node (Element t a (Some s) []) ctx path =
              [dict_set (column_prefix path t) (strip s)
                 (add_attributes (column_prefix path t) a ctx)] \<and>
            expand_node_v2 (Element t a (Some s) []) ctx =
              [dict_set t (strip s) (add_attributes_v2 t a ctx)])"
  using assms
  by (simp add: expand_node.simps [of "Element t a x cs"] expand_node.simps [of "Element t a None cs"]
      expand_node_v2.simps [of "Element t a x cs"] expand_node_v2.simps [of "Element t a None cs"]
      expand_node.simps [of "Element t a (Some s) []"]
      expand_node_v2.simps [of "Element t a (Some s) []"] stripped_text_def Let_def)

lemma mixed_text_rows:
  "expand_node mixed_text_tree [] [] = [[(''r_a_b'', ''1'')]]"
  "expand_node_v2 mixed_text_tree [] = [[(''a_@b'', ''1'')]]"
  "expand_node (Element ''r'' [] (Some ''hello'') []) [] [] = [[(''r'', ''hello'')]]"
  "expand_node_v2 (Element ''r'' [] (Some ''hello'') []) [] = [[(''r'', ''hello'')]]"
  by code_simp+

theorem expand_node_ignores_mixed_text_witness:
  "[Element ''a'' [(''b'', ''1'')] None []] \<noteq> [] \<and>
   stripped_text mixed_text_tree = ''hello'' \<and>
   expand_node mixed_text_tree [] [] = [[(''r_a_b'', ''1'')]] \<and>
   expand_node (Element ''r'' [] None [Element ''a'' [(''b'', ''1'')] None []]) [] [] =
     [[(''r_a_b'', ''1'')]] \<and>
   expand_node_v2 mixed_text_tree [] = [[(''a_@b'', ''1'')]] \<and>
   expand_node_v2 (Element ''r'' [] None [Element ''a'' [(''b'', ''1'')] None []]) [] =
     [[(''a_@b'', ''1'')]] \<and>
   expand_node (Element ''r'' [] (Some ''hello'') []) [] [] = [[(''r'', ''hello'')]]"
proof -
  have ne: "[Element ''a'' [(''b'', ''1'')] None []] \<noteq> []" by simp
  have tx: "stripped_text mixed_text_tree = ''hello''"
    by (simp add: stripped_text_def mixed_text_tree_def strip_def is_space_def)
  have "expand_node (Element ''r'' [] None [Element ''a'' [(''b'', ''1'')] None []]) [] [] =
      [[(''r_a_b'', ''1'')]] \<and>
    expand_node_v2 (Element ''r'' [] None [Element ''a'' [(''b'', ''1'')] None []]) [] =
      [[(''a_@b'', ''1'')]]"
    using expand_node_ignores_mixed_text
      [OF ne, of "''r''" "[]" "Some ''hello''" "[]" "[]" "''hello''"] mixed_text_rows(1,2)
    by (simp add: mixed_text_tree_def)
  then show ?thesis
    using mixed_text_rows tx ne by simp
qed

lemma expand_node_branch:
  "children el \<noteq> [] \<Longrightarrow>
   expand_node el ctx path =
     map (merge_combo (add_attributes (column_prefix path (tag el)) (attrib el) ctx))
       (product_lists (expanded_groups el ctx path))"
  by (subst expand_node.simps) (simp add: Let_def expanded_groups_def)

lemma expand_node_leaf:
  "children el = [] \<Longrightarrow>
   expand_node el ctx path =
     [if stripped_text el \<noteq> []
      then dict_set (column_prefix path (tag el)) (stripped_text el)
             (add_attributes (column_prefix path (tag el)) (attrib el) ctx)
      else add_attributes (column_prefix path (tag el)) (attrib el) ctx]"
  by (subst expand_node.simps) (simp add: Let_def)

lemma map_of_dict_set: "map_of (dict_set k v d) = (map_of d)(k \<mapsto> v)"
  by (induction d) auto

lemma distinct_dict_set: "distinct (map fst d) \<Longrightarrow> distinct (map fst (dict_set k v d))"
  by (induction d) (auto simp: dict_set_keys)

lemma distinct_fold_dict_set:
  "distinct (map fst d) \<Longrightarrow> distinct (map fst (fold (\<lambda>(k, v) acc. dict_set (f k) v acc) r d))"
  by (induction r arbitrary: d) (auto simp: distinct_dict_set)

lemma distinct_dict_update:
  "distinct (map fst d) \<Longrightarrow> distinct (map fst (dict_update d r))"
  using distinct_fold_dict_set [of d "\<lambda>k. k" r] by (simp add: dict_update_def)

lemma distinct_add_attributes:
  "distinct (map fst d) \<Longrightarrow> distinct (map fst (add_attributes p a d))"
  using distinct_fold_dict_set [of d "\<lambda>k. p @ ''_'' @ k" a] by (simp add: add_attributes_def)

lemma distinct_merge_combo:
  "distinct (map fst base) \<Longrightarrow> distinct (map fst (merge_combo base combo))"
  unfolding merge_combo_def
  by (induction combo arbitrary: base) (auto simp: distinct_dict_update)

lemma map_of_dict_update:
  "distinct (map fst r) \<Longrightarrow>
   map_of (dict_update d r) k = (case map_of r k of None \<Rightarrow> map_of d k | Some v \<Rightarrow> Some v)"
  unfolding dict_update_def
proof (induction r arbitrary: d)
  case Nil
  then show ?case by simp
next
  case (Cons p r)
  obtain k' v' where p: "p = (k', v')" by (cases p)
  have "map_of r k' = None"
    using Cons.prems p by (simp add: map_of_eq_None_iff)
  then show ?case
    using Cons p by (auto simp: map_of_dict_set split: option.splits)
qed

lemma expand_node_distinct:
  assumes "distinct (map fst ctx)" and "row \<in> set (expand_node el ctx path)"
  shows "distinct (map fst row)"
proof (cases "children el = []")
  case True
  then show ?thesis
    using assms by (auto simp: expand_node_leaf distinct_dict_set distinct_add_attributes split: if_splits)
next
  case False
  then show ?thesis
    using assms by (auto simp: expand_node_branch distinct_merge_combo distinct_add_attributes)
qed

lemma expanded_groups_rows:
  assumes "combo \<in> set (product_lists (expanded_groups el ctx path))" and "r \<in> set combo"
  shows "\<exists>n \<in> set (children el).
           r \<in> set (expand_node n (add_attributes (column_prefix path (tag el)) (attrib el) ctx)
                      (column_prefix path (tag el)))"
proof -
  have "list_all2 (\<lambda>x ys. x \<in> set ys) combo (expanded_groups el ctx path)"
    using assms(1) by (simp add: product_lists_set)
  then obtain ys where "ys \<in> set (expanded_groups el ctx path)" and "r \<in> set ys"
    using assms(2) by (metis in_set_conv_nth list_all2_conv_all_nth)
  then obtain t nodes n where "(t, nodes) \<in> set (group_children (children el))" and "n \<in> set nodes"
    and "r \<in> set (expand_node n (add_attributes (column_prefix path (tag el)) (attrib el) ctx)
                      (column_prefix path (tag el)))"
    by (auto simp: expanded_groups_def)
  then show ?thesis
    using group_children_members [of t nodes "children el"] by auto
qed

lemma merge_combo_keeps_value:
  "map_of m k = Some v \<Longrightarrow>
   \<forall>r' \<in> set post. distinct (map fst r') \<and> (map_of r' k = None \<or> map_of r' k = Some v) \<Longrightarrow>
   map_of (merge_combo m post) k = Some v"
proof (induction post arbitrary: m)
  case Nil
  then show ?case by (simp add: merge_combo_def)
next
  case (Cons a post)
  have "map_of (dict_update m a) k = Some v"
    using Cons.prems by (auto simp: map_of_dict_update split: option.splits)
  then have "map_of (merge_combo (dict_update m a) post) k = Some v"
    using Cons.prems by (intro Cons.IH) auto
  then show ?case by (simp add: merge_combo_def)
qed

lemma merge_combo_last_write:
  assumes "\<forall>r' \<in> set (pre @ r # post). distinct (map fst r')"
    and "map_of r k = Some v"
    and "\<forall>r' \<in> set post. map_of r' k = None \<or> map_of r' k = Some v"
  shows "map_of (merge_combo base (pre @ r # post)) k = Some v"
proof -
  have "merge_combo base (pre @ r # post) =
      merge_combo (dict_update (merge_combo base pre) r) post"
    by (simp add: merge_combo_def)
  moreover have "map_of (dict_update (merge_combo base pre) r) k = Some v"
    using assms by (simp add: map_of_dict_update)
  ultimately show ?thesis
    using assms by (simp add: merge_combo_keeps_value)
qed

text \<open>
  C6, as amended. A row of a node with children is the merge, into the data of the node, of
  one row per tag group, in first-seen order of the groups. A value that a group's row
  holds for a column is the value of the output row whenever no row of a later group in the
  combination holds a different value for that column; where a later group holds the same
  column, its value replaces the earlier one.
\<close>

theorem expand_node_last_write_wins:
  assumes "children el \<noteq> []" and "distinct (map fst ctx)"
    and "row \<in> set (expand_node el ctx path)"
  shows "\<exists>combo \<in> set (product_lists (expanded_groups el ctx path)).
           row = merge_combo (add_attributes (column_prefix path (tag el)) (attrib el) ctx) combo \<and>
           (\<forall>pre r post k v.
              combo = pre @ r # post \<and> map_of r k = Some v \<and>
              (\<forall>r' \<in> set post. map_of r' k = None \<or> map_of r' k = Some v) \<longrightarrow>
              map_of row k = Some v)"
proof -
  let ?base = "add_attributes (column_prefix path (tag el)) (attrib el) ctx"
  obtain combo where c: "combo \<in> set (product_lists (expanded_groups el ctx path))"
    and row: "row = merge_combo ?base combo"
    using assms by (auto simp: expand_node_branch)
  have d: "\<forall>r \<in> set combo. distinct (map fst r)"
    using expanded_groups_rows [OF c] expand_node_distinct [of ?base] assms(2)
    by (metis distinct_add_attributes)
  have "\<forall>pre r post k v.
      combo = pre @ r # post \<and> map_of r k = Some v \<and>
      (\<forall>r' \<in> set post. map_of r' k = None \<or> map_of r' k = Some v) \<longrightarrow>
      map_of row k = Some v"
    using d row merge_combo_last_write by blast
  then show ?thesis using c row by blast
qed

lemma collision_rows:
  "expand_node collision_tree [] [] = [[(''r_a_b'', ''2'')]]"
  "expand_node (Element ''a'' [(''b'', ''1'')] None []) [] ''r'' = [[(''r_a_b'', ''1'')]]"
  "expand_node (Element ''a_b'' [] (Some ''2'') []) [] ''r'' = [[(''r_a_b'', ''2'')]]"
  "expanded_groups collision_tree [] [] = [[[(''r_a_b'', ''1'')]], [[(''r_a_b'', ''2'')]]]"
  by code_simp+

text \<open>
  C6 as stated fails: under \<open>r\<close>, the group \<open>a\<close> with the attribute \<open>b\<close> and the
  sibling group \<open>a_b\<close> with text both write the column \<open>r_a_b\<close>, and the one output row
  holds the value of the later sibling.
\<close>

theorem expand_node_sibling_overwrite_counterexample:
  "expand_node (Element ''a'' [(''b'', ''1'')] None []) [] ''r'' = [[(''r_a_b'', ''1'')]] \<and>
   expand_node (Element ''a_b'' [] (Some ''2'') []) [] ''r'' = [[(''r_a_b'', ''2'')]] \<and>
   expand_node collision_tree [] [] = [[(''r_a_b'', ''2'')]]"
  by (simp add: collision_rows)

theorem expand_node_last_write_wins_witness:
  "children collision_tree \<noteq> [] \<and> distinct (map fst ([] :: string dict)) \<and>
   [(''r_a_b'', ''2'')] \<in> set (expand_node collision_tree [] []) \<and>
   (\<exists>combo \<in> set (product_lists (expanded_groups collision_tree [] [])).
      [(''r_a_b'', ''2'')] =
        merge_combo (add_attributes (column_prefix [] (tag collision_tree)) (attrib collision_tree) [])
          combo)"
proof -
  have a: "children collision_tree \<noteq> []" by (simp add: collision_tree_def)
  have b: "distinct (map fst ([] :: string dict))" by simp
  have c: "[(''r_a_b'', ''2'')] \<in> set (expand_node collision_tree [] [])"
    by (simp add: collision_rows)
  show ?thesis
    using expand_node_last_write_wins [OF a b c] a b c by blast
qed

section \<open>Documents without repeated tags: one row\<close>

lemma dict_set_append: "k \<notin> fst ` set d \<Longrightarrow> dict_set k v d = d @ [(k, v)]"
  by (induction d) auto

lemma group_children_distinct:
  "distinct (map tag cs) \<Longrightarrow> group_children cs = map (\<lambda>c. (tag c, [c])) cs"
proof (induction cs rule: rev_induct)
  case Nil
  then show ?case by (simp add: group_children_def)
next
  case (snoc c cs)
  then have ih: "group_children cs = map (\<lambda>c. (tag c, [c])) cs" by simp
  have "tag c \<notin> tag ` set cs" using snoc.prems by auto
  then have "map_of (map (\<lambda>c. (tag c, [c])) cs) (tag c) = None"
    by (simp add: map_of_eq_None_iff image_image)
  then have "group_step c (group_children cs) = group_children cs @ [(tag c, [c])]"
    using ih by (simp add: group_step_def)
  moreover have "group_children (cs @ [c]) = group_step c (group_children cs)"
    by (simp add: group_children_def)
  ultimately show ?case using ih by simp
qed

lemma tag_counts_distinct:
  "distinct (map tag cs) \<Longrightarrow> tag_counts cs = map (\<lambda>c. (tag c, 1)) cs"
proof (induction cs rule: rev_induct)
  case Nil
  then show ?case by (simp add: tag_counts_def)
next
  case (snoc c cs)
  then have ih: "tag_counts cs = map (\<lambda>c. (tag c, 1)) cs" by simp
  have notin: "tag c \<notin> fst ` set (map (\<lambda>c. (tag c, 1::nat)) cs)"
    using snoc.prems by (auto simp: image_image)
  then have none: "map_of (map (\<lambda>c. (tag c, 1::nat)) cs) (tag c) = None"
    by (simp add: map_of_eq_None_iff)
  have "tag_counts (cs @ [c]) =
      dict_set (tag c) ((case map_of (tag_counts cs) (tag c) of None \<Rightarrow> 0 | Some n \<Rightarrow> n) + 1)
        (tag_counts cs)"
    by (simp add: tag_counts_def)
  then show ?case
    using ih none notin by (simp add: dict_set_append)
qed

lemma no_repeated_tags_children:
  "no_repeated_tags el \<Longrightarrow> distinct (map tag (children el)) \<and>
     (\<forall>c \<in> set (children el). no_repeated_tags c)"
  by (cases el) (simp add: list_all_iff)

lemma no_repeated_not_repetitive:
  "no_repeated_tags el \<Longrightarrow> \<not> has_repetitive_descendants el"
proof (induction "size el" arbitrary: el rule: less_induct)
  case less
  have d: "distinct (map tag (children el))" and c: "\<forall>c \<in> set (children el). no_repeated_tags c"
    using less.prems no_repeated_tags_children by auto
  have "\<not> list_ex (\<lambda>(t, n). n > 1) (tag_counts (children el))"
    by (simp add: tag_counts_distinct [OF d] list_ex_iff)
  moreover have "\<not> list_ex has_repetitive_descendants (children el)"
    using less.hyps c size_child by (auto simp: list_ex_iff)
  ultimately show ?case
    by (subst has_repetitive_descendants.simps) simp
qed

lemma prod_list_ones: "\<forall>x \<in> set xs. x = (1::nat) \<Longrightarrow> prod_list xs = 1"
  by (induction xs) auto

lemma expand_node_no_repeats:
  "no_repeated_tags el \<Longrightarrow> length (expand_node el ctx path) = 1"
proof (induction "size el" arbitrary: el ctx path rule: less_induct)
  case less
  show ?case
  proof (cases "children el = []")
    case True
    then show ?thesis by (simp add: expand_node_leaf)
  next
    case False
    have d: "distinct (map tag (children el))" and c: "\<forall>c \<in> set (children el). no_repeated_tags c"
      using less.prems no_repeated_tags_children by auto
    let ?base = "add_attributes (column_prefix path (tag el)) (attrib el) ctx"
    let ?pfx = "column_prefix path (tag el)"
    have "expanded_groups el ctx path = map (\<lambda>n. expand_node n ?base ?pfx) (children el)"
      by (simp add: expanded_groups_def group_children_distinct [OF d] comp_def)
    moreover have "\<forall>n \<in> set (children el). length (expand_node n ?base ?pfx) = 1"
      using less.hyps c size_child by auto
    ultimately have "\<forall>x \<in> set (map length (expanded_groups el ctx path)). x = 1"
      by auto
    then have "prod_list (map length (expanded_groups el ctx path)) = 1"
      by (rule prod_list_ones)
    then show ?thesis
      using False by (simp add: expand_node_branch length_product_lists_prod)
  qed
qed

lemma has_data_sel:
  "has_data el = (attrib el \<noteq> [] \<or> text_value el \<noteq> None \<or> list_ex has_data (children el))"
  by (cases el) simp

lemma dict_set_not_empty: "dict_set k v d \<noteq> []"
  by (cases d) auto

lemma fold_dict_set_not_empty:
  "d \<noteq> [] \<Longrightarrow> fold (\<lambda>(k, v) acc. dict_set (f k) (g v) acc) r d \<noteq> []"
proof (induction r arbitrary: d)
  case Nil
  then show ?case by simp
next
  case (Cons p r)
  obtain k v where p: "p = (k, v)" by (cases p)
  have "dict_set (f k) (g v) d \<noteq> []" by (rule dict_set_not_empty)
  then have "fold (\<lambda>(k, v) acc. dict_set (f k) (g v) acc) r (dict_set (f k) (g v) d) \<noteq> []"
    by (rule Cons.IH)
  then show ?case using p by simp
qed

lemma fold_dict_set_empty_iff:
  "fold (\<lambda>(k, v) acc. dict_set (f k) (g v) acc) r d = [] \<longleftrightarrow> d = [] \<and> r = []"
proof (cases r)
  case Nil
  then show ?thesis by simp
next
  case (Cons p r')
  obtain k v where p: "p = (k, v)" by (cases p)
  have "fold (\<lambda>(k, v) acc. dict_set (f k) (g v) acc) r' (dict_set (f k) (g v) d) \<noteq> []"
    using dict_set_not_empty by (rule fold_dict_set_not_empty)
  then show ?thesis using Cons p by simp
qed

lemma dict_update_empty_iff: "dict_update d r = [] \<longleftrightarrow> d = [] \<and> r = []"
  using fold_dict_set_empty_iff [of "\<lambda>k. k" "\<lambda>v. v" r d] by (simp add: dict_update_def)

lemma flatten_children_fold:
  assumes "\<forall>c \<in> set cs. \<exists>f. flatten_element c p = Some f \<and> (f \<noteq> [] \<longleftrightarrow> has_data c)"
  shows "\<exists>f. fold (flatten_child_step p) (map (\<lambda>c. (tag c, [c])) cs) (Some res) = Some f \<and>
              (f \<noteq> [] \<longleftrightarrow> res \<noteq> [] \<or> list_ex has_data cs)"
  using assms
proof (induction cs arbitrary: res)
  case Nil
  then show ?case by simp
next
  case (Cons c cs)
  have "\<exists>f. flatten_element c p = Some f \<and> (f \<noteq> [] \<longleftrightarrow> has_data c)"
    using Cons.prems by simp
  then obtain fc where fc: "flatten_element c p = Some fc" and fd: "fc \<noteq> [] \<longleftrightarrow> has_data c"
    by blast
  have rest: "\<forall>c \<in> set cs. \<exists>f. flatten_element c p = Some f \<and> (f \<noteq> [] \<longleftrightarrow> has_data c)"
    using Cons.prems by simp
  have step: "flatten_child_step p (tag c, [c]) (Some res) = Some (dict_update res fc)"
    using fc by (simp add: flatten_child_step_def)
  obtain f where f: "fold (flatten_child_step p) (map (\<lambda>c. (tag c, [c])) cs)
        (Some (dict_update res fc)) = Some f"
    and fe: "f \<noteq> [] \<longleftrightarrow> dict_update res fc \<noteq> [] \<or> list_ex has_data cs"
    using Cons.IH [OF rest, of "dict_update res fc"] by blast
  have "fold (flatten_child_step p) (map (\<lambda>c. (tag c, [c])) (c # cs)) (Some res) = Some f"
    using step f by simp
  moreover have "f \<noteq> [] \<longleftrightarrow> res \<noteq> [] \<or> list_ex has_data (c # cs)"
    using fe fd by (simp add: dict_update_empty_iff)
  ultimately show ?case by blast
qed

lemma flatten_element_unfold:
  "flatten_element el p =
     (if list_ex (\<lambda>(t, cs). length cs > 1) (group_children (children el)) then None
      else fold (flatten_child_step (flatten_prefix el p)) (group_children (children el))
             (Some (flatten_own el p)))"
  unfolding flatten_own_def flatten_attributes_def flatten_prefix_def flatten_child_step_def
  by (subst flatten_element.simps) (simp only: Let_def)

lemma flatten_own_empty_iff:
  "flatten_own el p \<noteq> [] \<longleftrightarrow> attrib el \<noteq> [] \<or> text_value el \<noteq> None"
proof -
  have "flatten_attributes el p \<noteq> [] \<longleftrightarrow> attrib el \<noteq> []"
    unfolding flatten_attributes_def
    using fold_dict_set_empty_iff
      [of "\<lambda>k. if p \<noteq> [] then p @ tag el @ ''_'' @ k else tag el @ ''_'' @ k" PStr "attrib el" "[]"]
    by simp
  then show ?thesis
    by (cases "text_value el") (simp_all add: flatten_own_def dict_set_not_empty)
qed

lemma flatten_no_repeats:
  "no_repeated_tags el \<Longrightarrow>
   \<exists>f. flatten_element el p = Some f \<and> (f \<noteq> [] \<longleftrightarrow> has_data el)"
proof (induction "size el" arbitrary: el p rule: less_induct)
  case less
  have d: "distinct (map tag (children el))" and c: "\<forall>c \<in> set (children el). no_repeated_tags c"
    using less.prems no_repeated_tags_children by auto
  have "\<forall>c \<in> set (children el).
      \<exists>f. flatten_element c (flatten_prefix el p) = Some f \<and> (f \<noteq> [] \<longleftrightarrow> has_data c)"
    using less.hyps c size_child by blast
  then have "\<exists>f. fold (flatten_child_step (flatten_prefix el p))
        (map (\<lambda>c. (tag c, [c])) (children el)) (Some (flatten_own el p)) = Some f \<and>
      (f \<noteq> [] \<longleftrightarrow> flatten_own el p \<noteq> [] \<or> list_ex has_data (children el))"
    by (rule flatten_children_fold)
  then obtain f where f: "fold (flatten_child_step (flatten_prefix el p))
        (map (\<lambda>c. (tag c, [c])) (children el)) (Some (flatten_own el p)) = Some f"
    and fe: "f \<noteq> [] \<longleftrightarrow> flatten_own el p \<noteq> [] \<or> list_ex has_data (children el)"
    by blast
  have g: "group_children (children el) = map (\<lambda>c. (tag c, [c])) (children el)"
    using d by (rule group_children_distinct)
  have "\<not> list_ex (\<lambda>(t, cs). length cs > 1) (group_children (children el))"
    by (simp add: g list_ex_iff)
  then have "flatten_element el p = Some f"
    using f g by (simp add: flatten_element_unfold)
  moreover have "f \<noteq> [] \<longleftrightarrow> has_data el"
    using fe by (simp add: flatten_own_empty_iff has_data_sel [of el])
  ultimately show ?case by blast
qed

lemma level1_rows_no_repeats:
  assumes "no_repeated_tags c"
  shows "(has_data c \<longrightarrow> (\<exists>row. level1_rows clock c t = ([row], Suc t))) \<and>
         (\<not> has_data c \<longrightarrow> level1_rows clock c t = ([], t))"
proof -
  obtain f where "flatten_element c [] = Some f" "f \<noteq> [] \<longleftrightarrow> has_data c"
    using flatten_no_repeats [OF assms] by blast
  then show ?thesis
    using no_repeated_not_repetitive [OF assms] by (auto simp: level1_rows_def)
qed

lemma level1_fold_no_repeats:
  assumes "distinct (map tag cs)" and "\<forall>c \<in> set cs. no_repeated_tags c"
    and "tag ` set cs \<inter> fst ` set T = {}"
  shows "map (\<lambda>(name, rows). (name, length rows)) (fst (fold (level1_step clock) cs (T, t))) =
         map (\<lambda>(name, rows). (name, length rows)) T @
         map (\<lambda>c. (tag c, 1)) (filter has_data cs)"
  using assms
proof (induction cs arbitrary: T t)
  case Nil
  then show ?case by simp
next
  case (Cons c cs)
  have nr: "no_repeated_tags c" using Cons.prems by simp
  have notin: "tag c \<notin> fst ` set T" using Cons.prems by auto
  show ?case
  proof (cases "has_data c")
    case True
    then obtain row where row: "level1_rows clock c t = ([row], Suc t)"
      using level1_rows_no_repeats [OF nr] by blast
    have step: "level1_step clock c (T, t) = (T @ [(tag c, [row])], Suc t)"
      using row notin by (simp add: level1_step_def dict_set_append)
    have "tag ` set cs \<inter> fst ` set (T @ [(tag c, [row])]) = {}"
      using Cons.prems by auto
    then have "map (\<lambda>(name, rows). (name, length rows))
          (fst (fold (level1_step clock) cs (T @ [(tag c, [row])], Suc t))) =
        map (\<lambda>(name, rows). (name, length rows)) (T @ [(tag c, [row])]) @
        map (\<lambda>c. (tag c, 1)) (filter has_data cs)"
      using Cons.prems by (intro Cons.IH) auto
    then show ?thesis using step True by simp
  next
    case False
    then have step: "level1_step clock c (T, t) = (T, t)"
      using level1_rows_no_repeats [OF nr] by (simp add: level1_step_def)
    have "tag ` set cs \<inter> fst ` set T = {}"
      using Cons.prems by auto
    then have "map (\<lambda>(name, rows). (name, length rows)) (fst (fold (level1_step clock) cs (T, t))) =
        map (\<lambda>(name, rows). (name, length rows)) T @
        map (\<lambda>c. (tag c, 1)) (filter has_data cs)"
      using Cons.prems by (intro Cons.IH) auto
    then show ?thesis using step False by simp
  qed
qed

lemma descendants_children:
  "e \<in> set (descendants el) \<Longrightarrow> \<exists>c \<in> set (children el). e = c \<or> e \<in> set (descendants c)"
  by (cases el) auto

lemma descendants_no_repeats:
  "no_repeated_tags el \<Longrightarrow> e \<in> set (descendants el) \<Longrightarrow> no_repeated_tags e"
proof (induction "size el" arbitrary: el rule: less_induct)
  case less
  obtain c where c: "c \<in> set (children el)" and e: "e = c \<or> e \<in> set (descendants c)"
    using less.prems descendants_children by blast
  have "no_repeated_tags c" using less.prems c no_repeated_tags_children by blast
  then show ?case using e less.hyps c size_child by blast
qed

lemma find_data_element_in_tree:
  assumes "plain_tag_name data_node \<or> data_node = [] \<or> data_node = ''*''"
    and "find_data_element element_path data_node root = Inr (Some d)"
  shows "d \<in> set (root # descendants root)"
proof (cases "tag root = data_node")
  case True
  then show ?thesis using assms by (simp add: find_data_element_def)
next
  case False
  show ?thesis
  proof (cases "plain_tag_name data_node")
    case True
    then have "find (\<lambda>e. tag e = data_node) (descendants root) = Some d"
      using assms False by (simp add: find_data_element_def)
    then show ?thesis by (auto simp: find_Some_iff)
  next
    case np: False
    then have "(case descendants root of [] \<Rightarrow> None | e # rest \<Rightarrow> Some e) = Some d"
      using assms False by (simp add: find_data_element_def)
    then show ?thesis by (cases "descendants root") auto
  qed
qed

lemma in_tree_no_repeats:
  assumes "no_repeated_tags root" and "d \<in> set (root # descendants root)"
  shows "no_repeated_tags d"
  using assms descendants_no_repeats by auto

text \<open>
  C7. In a tree without repeated tags, \<open>expand_node\<close> returns exactly one row. When the
  data element is an element of the tree, the tables of \<open>flatten_xml\<close> are, in order, one
  table of exactly one row for each child of the data element that holds some text or
  attribute data, and nothing for the others. For a tag name, the empty string and \<open>*\<close>
  the data element found is an element of the tree.
\<close>

theorem no_repeated_tags_one_row:
  assumes "no_repeated_tags root"
  shows "length (expand_node root ctx path) = 1 \<and>
         (find_data_element element_path data_node root = Inr (Some d) \<and>
          d \<in> set (root # descendants root) \<longrightarrow>
            (\<exists>tables. flatten_xml element_path clock data_node root = Inr tables \<and>
               map (\<lambda>(name, rows). (name, length rows)) tables =
                 map (\<lambda>c. (tag c, 1)) (filter has_data (children d)))) \<and>
         ((plain_tag_name data_node \<or> data_node = [] \<or> data_node = ''*'') \<and>
          find_data_element element_path data_node root = Inr (Some d) \<longrightarrow>
            d \<in> set (root # descendants root))"
proof -
  have "\<exists>tables. flatten_xml element_path clock data_node root = Inr tables \<and>
      map (\<lambda>(name, rows). (name, length rows)) tables =
        map (\<lambda>c. (tag c, 1)) (filter has_data (children d))"
    if f: "find_data_element element_path data_node root = Inr (Some d)"
      and t: "d \<in> set (root # descendants root)"
  proof -
    have "no_repeated_tags d" using assms t by (rule in_tree_no_repeats)
    then have "distinct (map tag (children d))" and "\<forall>c \<in> set (children d). no_repeated_tags c"
      using no_repeated_tags_children by auto
    then have "map (\<lambda>(name, rows). (name, length rows))
          (fst (fold (level1_step clock) (children d) ([], 0))) =
        map (\<lambda>(name, rows). (name, length rows)) [] @
        map (\<lambda>c. (tag c, 1)) (filter has_data (children d))"
      using level1_fold_no_repeats [of "children d" "[]" clock 0] by simp
    then show ?thesis using f by (simp add: flatten_xml_def)
  qed
  then show ?thesis
    using assms find_data_element_in_tree [of data_node element_path root d]
    by (simp add: expand_node_no_repeats)
qed

lemma plain_tree_facts:
  "no_repeated_tags plain_tree"
  "find_data_element rejecting_path ''data'' plain_tree = Inr (Some plain_tree)"
  "filter has_data (children plain_tree) =
     [Element ''p'' [(''id'', ''1'')] None [Element ''n'' [] (Some ''x'') []]]"
  "flatten_xml rejecting_path sample_clock ''data'' plain_tree =
     Inr [(''p'', [[(''p_id'', PStr ''1''), (''p_n'', PStr ''x''),
                    (''_load_timestamp'', PStr (sample_clock 0))]])]"
  "expand_node plain_tree [] [] = [[(''data_p_id'', ''1''), (''data_p_n'', ''x'')]]"
  by code_simp+

theorem no_repeated_tags_one_row_witness:
  "no_repeated_tags plain_tree \<and>
   find_data_element rejecting_path ''data'' plain_tree = Inr (Some plain_tree) \<and>
   plain_tree \<in> set (plain_tree # descendants plain_tree) \<and>
   length (expand_node plain_tree [] []) = 1 \<and>
   (\<exists>tables. flatten_xml rejecting_path sample_clock ''data'' plain_tree = Inr tables \<and>
      map (\<lambda>(name, rows). (name, length rows)) tables = [(''p'', 1)]) \<and>
   map (\<lambda>c. (tag c, 1 :: nat)) (filter has_data (children plain_tree)) = [(''p'', 1)]"
proof -
  have t: "plain_tree \<in> set (plain_tree # descendants plain_tree)" by simp
  show ?thesis
    using no_repeated_tags_one_row
      [OF plain_tree_facts(1), of "[]" "[]" rejecting_path "''data''" plain_tree sample_clock]
      plain_tree_facts t
    by simp
qed

end
